theory Spec2Isabelle
  imports Complex_Main
begin

section \<open>Points, segments and the errors of the arrangement code\<close>

text \<open>
  A \<open>paper.Point\<close> is a pair of numbers. Numbers are modelled as reals: rounding
  of the double precision arithmetic is not part of this development.
\<close>

datatype point = Point (px: real) (py: real)

definition subtract :: "point \<Rightarrow> point \<Rightarrow> point" where
  "subtract p q = Point (px p - px q) (py p - py q)"

definition add :: "point \<Rightarrow> point \<Rightarrow> point" where
  "add p q = Point (px p + px q) (py p + py q)"

definition multiply :: "point \<Rightarrow> real \<Rightarrow> point" where
  "multiply p k = Point (px p * k) (py p * k)"

text \<open>
  \<open>FailedToGetSides\<close> is the string thrown at the end of \<open>getOutlineSides\<close>;
  \<open>TypeError\<close> is what JavaScript raises on a member access on \<open>undefined\<close>;
  \<open>NoProjectedPoint\<close> is a projection that has no point to return.
\<close>

datatype error = FailedToGetSides | TypeError | NoProjectedPoint

text \<open>\<open>Array.prototype.shift\<close>: the first element, \<open>undefined\<close> on an empty array.\<close>

fun shift :: "'a option list \<Rightarrow> 'a option \<times> 'a option list" where
  "shift [] = (None, [])"
| "shift (v # vs) = (v, vs)"

text \<open>An indexed read of a JavaScript array: \<open>undefined\<close> out of range.\<close>

definition elemAt :: "'a list \<Rightarrow> nat \<Rightarrow> 'a option" where
  "elemAt vs i = (if i < length vs then Some (vs ! i) else None)"

section \<open>The decomposition walk of \<open>getOutlineSides\<close>\<close>

text \<open>
  The loop \<open>for (let segment of segmentList)\<close>. Its state is \<open>sides\<close>,
  \<open>segmentGroup\<close>, \<open>targetCorner\<close> and \<open>cornerPoints\<close>. The test
  \<open>targetCorner.isClose(segment.point, EPSILON)\<close> of the graphics engine is the
  parameter \<open>isClose\<close>; a segment is any value \<open>'s\<close> whose current point
  \<open>pt\<close> gives. The member access raises when \<open>targetCorner\<close> or
  \<open>segment\<close> is \<open>undefined\<close>.
\<close>

fun walk :: "(point \<Rightarrow> point \<Rightarrow> bool) \<Rightarrow> ('s \<Rightarrow> point) \<Rightarrow> 's option list \<Rightarrow>
    's list list \<Rightarrow> 's list \<Rightarrow> point option \<Rightarrow> point option list \<Rightarrow>
    error + ('s list list \<times> 's list \<times> point option \<times> point option list)" where
  "walk isClose pt [] sides segmentGroup targetCorner cornerPoints =
     Inr (sides, segmentGroup, targetCorner, cornerPoints)"
| "walk isClose pt (segment # rest) sides segmentGroup targetCorner cornerPoints =
     (case targetCorner of
        None \<Rightarrow> Inl TypeError
      | Some target \<Rightarrow>
          (case segment of
             None \<Rightarrow> Inl TypeError
           | Some sg \<Rightarrow>
               if isClose target (pt sg)
               then walk isClose pt rest (sides @ [segmentGroup @ [sg]]) [sg]
                      (fst (shift cornerPoints)) (snd (shift cornerPoints))
               else walk isClose pt rest sides (segmentGroup @ [sg]) targetCorner cornerPoints))"

text \<open>
  \<open>getOutlineSides\<close> on the corner segments and the outline's segments:
  the corner points are rotated by one (\<open>shift\<close>, \<open>push\<close>), the first of them
  becomes the target, the outline's first segment is repeated at the end of the
  segment list, and after the walk anything but four sides is thrown.
\<close>

definition getOutlineSidesOf :: "(point \<Rightarrow> point \<Rightarrow> bool) \<Rightarrow> ('s \<Rightarrow> point) \<Rightarrow> 's list \<Rightarrow>
    's list \<Rightarrow> error + 's list list" where
  "getOutlineSidesOf isClose pt corners segments =
     (let cornerPoints = map (\<lambda>c. Some (pt c)) corners;
          first = fst (shift cornerPoints);
          cornerPoints1 = snd (shift cornerPoints) @ [first];
          targetCorner = fst (shift cornerPoints1);
          cornerPoints2 = snd (shift cornerPoints1);
          segmentList = map Some segments @ [elemAt segments 0]
      in case walk isClose pt segmentList [] [] targetCorner cornerPoints2 of
           Inl e \<Rightarrow> Inl e
         | Inr (sides, segmentGroup, target, rest) \<Rightarrow>
             if length sides \<noteq> 4 then Inl FailedToGetSides else Inr sides)"

text \<open>
  Two adjacent sides share the segment at which the first was closed. \<open>chained\<close> says
  so of a list of sides; \<open>joinSides\<close> glues the sides at the shared segments.
\<close>

fun chained :: "'s list list \<Rightarrow> bool" where
  "chained [] = True"
| "chained [s] = True"
| "chained (s # t # r) = (s \<noteq> [] \<and> t \<noteq> [] \<and> last s = hd t \<and> chained (t # r))"

fun joinSides :: "'s list list \<Rightarrow> 's list" where
  "joinSides [] = []"
| "joinSides (s # r) = s @ concat (map tl r)"

section \<open>Curves addressed by arc length\<close>

text \<open>
  \<open>paper.Curvelike\<close>: an object with a \<open>length\<close> and a method \<open>getPointAt\<close>.
  The result of \<open>getPointAt\<close> is \<open>null\<close> (\<open>None\<close>) where the object has no
  point to give.
\<close>

datatype curvelike = Curvelike (getPointAt: "real \<Rightarrow> point option") (curveLength: real)

text \<open>
  \<open>PathSection\<close> (PathSection.ts): the constructor stores its three arguments,
  \<open>getPointAt\<close> asks the path at \<open>offset + this.offset\<close>.
\<close>

datatype pathSection = PathSection (sectionPath: curvelike) (sectionOffset: real) (sectionLength: real)

definition PathSection_getPointAt :: "pathSection \<Rightarrow> real \<Rightarrow> point option" where
  "PathSection_getPointAt this distance = getPointAt (sectionPath this) (distance + sectionOffset this)"

definition lerp :: "point \<Rightarrow> point \<Rightarrow> real \<Rightarrow> point" where
  "lerp a b t = add a (multiply (subtract b a) t)"

text \<open>
  Modelled from the spec: \<open>PaperHelpers.sandwichPathProjection\<close> is called by
  \<open>arrangePath\<close> and its source is missing. The spec gives
  \<open>project(u, v) = lerp(topCurve.pointAt(u \<times> topLength), bottomCurve.pointAt(u \<times> bottomLength), v)\<close>;
  where a curve has no point at the queried arc length there is nothing to interpolate
  and the projection fails.
\<close>

definition sandwichPathProjection :: "curvelike \<Rightarrow> curvelike \<Rightarrow> point \<Rightarrow> error + point" where
  "sandwichPathProjection topPath bottomPath unitPoint =
     (case getPointAt topPath (px unitPoint * curveLength topPath) of
        None \<Rightarrow> Inl NoProjectedPoint
      | Some topPoint \<Rightarrow>
          (case getPointAt bottomPath (px unitPoint * curveLength bottomPath) of
             None \<Rightarrow> Inl NoProjectedPoint
           | Some bottomPoint \<Rightarrow> Inr (lerp topPoint bottomPoint (py unitPoint))))"

text \<open>A point lies on a curve when the curve gives it at an arc length within its length.\<close>

definition sampledWithin :: "curvelike \<Rightarrow> real \<Rightarrow> point \<Rightarrow> bool" where
  "sampledWithin c d p = (0 \<le> d \<and> d \<le> curveLength c \<and> getPointAt c d = Some p)"

section \<open>The graphics engine and the state of a \<open>StretchyPath\<close>\<close>

datatype rectangle = Rectangle (topLeft: point) (width: real) (height: real)

definition topRight :: "rectangle \<Rightarrow> point" where
  "topRight r = Point (px (topLeft r) + width r) (py (topLeft r))"

definition bottomRight :: "rectangle \<Rightarrow> point" where
  "bottomRight r = Point (px (topLeft r) + width r) (py (topLeft r) + height r)"

definition bottomLeft :: "rectangle \<Rightarrow> point" where
  "bottomLeft r = Point (px (topLeft r)) (py (topLeft r) + height r)"

text \<open>
  What the code asks of its collaborators, for an artwork type \<open>'a\<close>
  (\<open>paper.CompoundPath\<close>): \<open>Point.isClose\<close> at the tolerance
  \<open>Numerical.EPSILON\<close>, the \<open>bounds\<close> of an item, the
  \<open>paper.Path\<close> built from segments at given points seen as a \<open>Curvelike\<close>,
  and \<open>PathTransform.transformPathItem\<close> (its source is missing), which maps
  the points of an artwork through a point function that may fail.
\<close>

record 'a engine =
  pointIsClose :: "point \<Rightarrow> point \<Rightarrow> bool"
  itemBounds :: "'a \<Rightarrow> rectangle"
  pathCurve :: "point list \<Rightarrow> curvelike"
  transformPathItem :: "(point \<Rightarrow> error + point) \<Rightarrow> 'a \<Rightarrow> error + 'a"

text \<open>
  Segment objects are shared: \<open>corners\<close> and \<open>outline.segments\<close> hold references
  to the same objects, and a drag changes a segment's point in place. A reference is a
  number, \<open>segPoint\<close> is the store from references to current points. Of a
  segment the code reads only its point; curve handles are the engine's matter.
  \<open>midpointGroup\<close> lists the curves (first and second segment) that carry a
  \<open>CurveSplitterHandle\<close>, \<open>segmentHandles\<close> the segments that carry a
  \<open>SegmentHandle\<close>.
\<close>

type_synonym segref = nat

record 'a stretchyPath =
  sourcePath :: 'a
  displayPath :: "'a option"
  corners :: "segref list"
  outline :: "segref list"
  segPoint :: "segref \<Rightarrow> point"
  midpointGroup :: "(segref \<times> segref) list"
  segmentHandles :: "segref list"

text \<open>\<open>outline.curves\<close> of the closed outline: one curve from each segment to the next,
  the last one back to the first.\<close>

definition curvesOf :: "segref list \<Rightarrow> (segref \<times> segref) list" where
  "curvesOf segments = zip segments (rotate1 segments)"

definition getOutlineSides :: "'a engine \<Rightarrow> 'a stretchyPath \<Rightarrow> error + segref list list" where
  "getOutlineSides E this = getOutlineSidesOf (pointIsClose E) (segPoint this) (corners this) (outline this)"

text \<open>
  \<open>updateMidpiontMarkers\<close>: the group is rebuilt with a handle for every curve of
  the outline but those whose first segment is \<open>corners[1]\<close> or \<open>corners[3]\<close>
  (\<open>===\<close> on references; \<open>undefined\<close> equals no segment).
\<close>

definition updateMidpiontMarkers :: "'a stretchyPath \<Rightarrow> 'a stretchyPath" where
  "updateMidpiontMarkers this =
     this\<lparr>midpointGroup :=
       filter (\<lambda>curve. \<not> (Some (fst curve) = elemAt (corners this) 1
                          \<or> Some (fst curve) = elemAt (corners this) 3))
         (curvesOf (outline this))\<rparr>"

text \<open>
  The point function of \<open>arrangePath\<close>'s \<open>PathTransform\<close>: the point relative to
  the origin of the bounds, divided by their width and height, is handed to the
  projection, whose result is returned. There is no test of the width or the height.
  The quotients are those of the reals: by a zero width or height the source's number
  is an infinity or NaN, which the reals lack as they lack rounding, and the quotient
  written here is then the reals' own.
\<close>

definition pathTransformPoint :: "point \<Rightarrow> real \<Rightarrow> real \<Rightarrow> (point \<Rightarrow> error + point) \<Rightarrow> point \<Rightarrow> error + point" where
  "pathTransformPoint orthOrigin orthWidth orthHeight projection point =
     (let relative = subtract point orthOrigin;
          unit = Point (px relative / orthWidth) (py relative / orthHeight);
          projected = projection unit
      in projected)"

text \<open>
  \<open>arrangePath\<close>. A side is a new path of copies of the walked segments, so its
  points are the segments' points at this moment, and \<open>bottom.reverse()\<close> reverses
  the copy. The result pairs the exception that ended the call, if any, with the state
  the call leaves.
\<close>

definition arrangePath :: "'a engine \<Rightarrow> 'a stretchyPath \<Rightarrow> error option \<times> 'a stretchyPath" where
  "arrangePath E this =
     (let orthOrigin = topLeft (itemBounds E (sourcePath this));
          orthWidth = width (itemBounds E (sourcePath this));
          orthHeight = height (itemBounds E (sourcePath this))
      in case getOutlineSides E this of
           Inl e \<Rightarrow> (Some e, this)
         | Inr sides \<Rightarrow>
             (let topSide = map (segPoint this) (sides ! 0);
                  bottomSide = rev (map (segPoint this) (sides ! 2));
                  projection = sandwichPathProjection (pathCurve E topSide) (pathCurve E bottomSide)
              in case transformPathItem E
                        (pathTransformPoint orthOrigin orthWidth orthHeight projection)
                        (sourcePath this) of
                   Inl e \<Rightarrow> (Some e, this)
                 | Inr newPath \<Rightarrow> (None, this\<lparr>displayPath := Some newPath\<rparr>)))"

definition arrangeContents :: "'a engine \<Rightarrow> 'a stretchyPath \<Rightarrow> error option \<times> 'a stretchyPath" where
  "arrangeContents E this = arrangePath E (updateMidpiontMarkers this)"

text \<open>
  Modelled from the spec: \<open>PaperHelpers.corners\<close> is missing; the outline starts as
  the bounding rectangle of the source artwork, four corners and no extra points, the
  first side being the top.
\<close>

definition PaperHelpers_corners :: "rectangle \<Rightarrow> point list" where
  "PaperHelpers_corners r = [topLeft r, topRight r, bottomRight r, bottomLeft r]"

text \<open>
  \<open>createOutline\<close>: the new path allocates one segment per corner point, here the
  references \<open>0, 1, ...\<close>; \<open>corners\<close> is a copy of the segment array.
\<close>

definition createOutline :: "'a engine \<Rightarrow> 'a \<Rightarrow> 'a stretchyPath" where
  "createOutline E source =
     (let points = PaperHelpers_corners (itemBounds E source);
          segments = [0 ..< length points]
      in \<lparr>sourcePath = source, displayPath = None, corners = map (\<lambda>s. s) segments,
          outline = segments,
          segPoint = (\<lambda>r. if r < length points then points ! r else Point 0 0),
          midpointGroup = [], segmentHandles = []\<rparr>)"

definition createSegmentMarkers :: "'a stretchyPath \<Rightarrow> 'a stretchyPath" where
  "createSegmentMarkers this = this\<lparr>segmentHandles := outline this\<rparr>"

text \<open>
  The state the statements of the constructor leave, whether its arrangement ended in an
  exception or not.
\<close>

definition constructed :: "'a engine \<Rightarrow> 'a \<Rightarrow> 'a stretchyPath" where
  "constructed E source =
     snd (arrangeContents E
            (updateMidpiontMarkers (createSegmentMarkers (createOutline E source))))"

text \<open>The constructor; an exception of \<open>arrangeContents\<close> leaves no object.\<close>

definition construct :: "'a engine \<Rightarrow> 'a \<Rightarrow> error + 'a stretchyPath" where
  "construct E source =
     (case arrangeContents E
             (updateMidpiontMarkers (createSegmentMarkers (createOutline E source))) of
        (Some e, this) \<Rightarrow> Inl e
      | (None, this) \<Rightarrow> Inr this)"

section \<open>Edits of the outline\<close>

text \<open>
  Modelled from the spec: \<open>SegmentHandle\<close> is missing; a drag of the handle of a
  segment sets the segment's point.
\<close>

definition moveSegment :: "segref \<Rightarrow> point \<Rightarrow> 'a stretchyPath \<Rightarrow> 'a stretchyPath" where
  "moveSegment r p this = this\<lparr>segPoint := (segPoint this)(r := p)\<rparr>"

text \<open>The callback \<open>onChangeComplete\<close> that the code gives every segment handle.\<close>

definition onChangeComplete :: "'a engine \<Rightarrow> 'a stretchyPath \<Rightarrow> error option \<times> 'a stretchyPath" where
  "onChangeComplete E this = arrangeContents E this"

definition cornerMoved :: "'a engine \<Rightarrow> segref \<Rightarrow> point \<Rightarrow> 'a stretchyPath \<Rightarrow> error option \<times> 'a stretchyPath" where
  "cornerMoved E r p this =
     (if r \<in> set (segmentHandles this) then onChangeComplete E (moveSegment r p this)
      else (None, this))"

fun insertAfter :: "segref \<Rightarrow> segref \<Rightarrow> segref list \<Rightarrow> segref list" where
  "insertAfter a n [] = []"
| "insertAfter a n (v # vs) = (if v = a then v # n # vs else v # insertAfter a n vs)"

definition freshRef :: "'a stretchyPath \<Rightarrow> segref" where
  "freshRef this = Suc (foldr max (outline this) 0)"

text \<open>
  Modelled from the spec: \<open>CurveSplitterHandle\<close> is missing; a midpoint insertion
  splits a curve of the outline at a point, which inserts a new segment after the
  curve's first segment.
\<close>

definition divideCurve :: "segref \<times> segref \<Rightarrow> segref \<Rightarrow> point \<Rightarrow> 'a stretchyPath \<Rightarrow> 'a stretchyPath" where
  "divideCurve curve newSegment p this =
     this\<lparr>outline := insertAfter (fst curve) newSegment (outline this),
          segPoint := (segPoint this)(newSegment := p)\<rparr>"

text \<open>
  The callback \<open>onDragEnd\<close> that the code gives every curve splitter handle: a
  segment handle for the new segment, the splitter handle removed, and an arrangement.
\<close>

definition onDragEnd :: "'a engine \<Rightarrow> segref \<times> segref \<Rightarrow> segref \<Rightarrow> 'a stretchyPath \<Rightarrow> error option \<times> 'a stretchyPath" where
  "onDragEnd E handle newSegment this =
     arrangeContents E
       (this\<lparr>segmentHandles := segmentHandles this @ [newSegment],
             midpointGroup := remove1 handle (midpointGroup this)\<rparr>)"

definition midpointInserted :: "'a engine \<Rightarrow> nat \<Rightarrow> point \<Rightarrow> 'a stretchyPath \<Rightarrow> error option \<times> 'a stretchyPath" where
  "midpointInserted E k p this =
     (case elemAt (midpointGroup this) k of
        None \<Rightarrow> (None, this)
      | Some handle \<Rightarrow> onDragEnd E handle (freshRef this) (divideCurve handle (freshRef this) p this))"

text \<open>
  An edit is a drag of the handle of a segment or a split at the \<open>k\<close>-th curve
  splitter handle. An exception of the arrangement ends the event; the object lives on
  in the state the event left.
\<close>

datatype edit = CornerMoved segref point | MidpointInserted nat point

fun applyEdit :: "'a engine \<Rightarrow> edit \<Rightarrow> 'a stretchyPath \<Rightarrow> 'a stretchyPath" where
  "applyEdit E (CornerMoved r p) this = snd (cornerMoved E r p this)"
| "applyEdit E (MidpointInserted k p) this = snd (midpointInserted E k p this)"

fun applyEdits :: "'a engine \<Rightarrow> edit list \<Rightarrow> 'a stretchyPath \<Rightarrow> 'a stretchyPath" where
  "applyEdits E [] this = this"
| "applyEdits E (e # es) this = applyEdits E es (applyEdit E e this)"

section \<open>Sides by corner, and the shape of the outline\<close>

text \<open>
  The run of the closed outline from segment \<open>a\<close> forward to segment \<open>b\<close>, and its
  curves. With the corners \<open>c\<close> the top side is the run from \<open>c[0]\<close> to \<open>c[1]\<close>,
  the right side from \<open>c[1]\<close> to \<open>c[2]\<close>, the bottom side from \<open>c[2]\<close> to
  \<open>c[3]\<close> and the left side from \<open>c[3]\<close> to \<open>c[0]\<close>.
\<close>

definition sideOf :: "segref list \<Rightarrow> segref \<Rightarrow> segref \<Rightarrow> segref list" where
  "sideOf segments a b =
     (let r = dropWhile (\<lambda>v. v \<noteq> a) segments @ takeWhile (\<lambda>v. v \<noteq> a) segments
      in a # takeWhile (\<lambda>v. v \<noteq> b) (tl r) @ [b])"

definition sideCurves :: "segref list \<Rightarrow> segref \<Rightarrow> segref \<Rightarrow> (segref \<times> segref) list" where
  "sideCurves segments a b = zip (sideOf segments a b) (tl (sideOf segments a b))"

text \<open>
  The invariant of the object: the four corners are the segments the outline was created
  with, the outline runs from corner 0 over inserted segments to corner 1, on to corner
  2, over inserted segments to corner 3, and the splitter handles are those of the last
  arrangement.
\<close>

definition framed :: "'a stretchyPath \<Rightarrow> bool" where
  "framed this \<longleftrightarrow>
     corners this = [0, 1, 2, 3] \<and> distinct (outline this) \<and>
     (\<exists>tops bots. outline this = 0 # tops @ [1, 2] @ bots @ [3]) \<and>
     midpointGroup this =
       filter (\<lambda>curve. \<not> (Some (fst curve) = elemAt (corners this) 1
                          \<or> Some (fst curve) = elemAt (corners this) 3))
         (curvesOf (outline this))"

section \<open>A concrete engine: polylines with axis-parallel segments\<close>

text \<open>
  To run the code on concrete frames: closeness within a tolerance (the distance
  compared by its square), a path with straight axis-parallel segments sampled by arc
  length (no point before its start or past its end), the bounding box of the anchor
  points, and a point function applied to every anchor point of every contour.
\<close>

definition closeWithin :: "real \<Rightarrow> point \<Rightarrow> point \<Rightarrow> bool" where
  "closeWithin eps p q =
     ((px p - px q) * (px p - px q) + (py p - py q) * (py p - py q) \<le> eps * eps)"

definition segmentLength :: "point \<Rightarrow> point \<Rightarrow> real" where
  "segmentLength p q = \<bar>px q - px p\<bar> + \<bar>py q - py p\<bar>"

fun polylineLength :: "point list \<Rightarrow> real" where
  "polylineLength (p # q # r) = segmentLength p q + polylineLength (q # r)"
| "polylineLength r = 0"

fun polylinePointAt :: "point list \<Rightarrow> real \<Rightarrow> point option" where
  "polylinePointAt (p # q # r) d =
     (if d < 0 then None
      else if d < segmentLength p q then Some (lerp p q (d / segmentLength p q))
      else if r = [] then (if d \<le> segmentLength p q then Some q else None)
      else polylinePointAt (q # r) (d - segmentLength p q))"
| "polylinePointAt r d = None"

definition polylineCurve :: "point list \<Rightarrow> curvelike" where
  "polylineCurve ps = Curvelike (polylinePointAt ps) (polylineLength ps)"

definition pointsBounds :: "point list list \<Rightarrow> rectangle" where
  "pointsBounds art =
     (case concat art of
        [] \<Rightarrow> Rectangle (Point 0 0) 0 0
      | p # ps \<Rightarrow>
          (let x0 = foldr min (map px ps) (px p); x1 = foldr max (map px ps) (px p);
               y0 = foldr min (map py ps) (py p); y1 = foldr max (map py ps) (py p)
           in Rectangle (Point x0 y0) (x1 - x0) (y1 - y0)))"

fun mapPoints :: "(point \<Rightarrow> error + point) \<Rightarrow> point list \<Rightarrow> error + point list" where
  "mapPoints f [] = Inr []"
| "mapPoints f (p # ps) =
     (case f p of
        Inl e \<Rightarrow> Inl e
      | Inr q \<Rightarrow> (case mapPoints f ps of Inl e \<Rightarrow> Inl e | Inr qs \<Rightarrow> Inr (q # qs)))"

fun mapContours :: "(point \<Rightarrow> error + point) \<Rightarrow> point list list \<Rightarrow> error + point list list" where
  "mapContours f [] = Inr []"
| "mapContours f (c # cs) =
     (case mapPoints f c of
        Inl e \<Rightarrow> Inl e
      | Inr d \<Rightarrow> (case mapContours f cs of Inl e \<Rightarrow> Inl e | Inr ds \<Rightarrow> Inr (d # ds)))"

definition polylineEngine :: "(point list list) engine" where
  "polylineEngine = \<lparr>pointIsClose = closeWithin (1 / 10 ^ 12), itemBounds = pointsBounds,
     pathCurve = polylineCurve, transformPathItem = mapContours\<rparr>"

text \<open>
  Concrete inputs. \<open>squareArtwork\<close> is one square contour; \<open>squareInitial\<close> is the
  object before the constructor's arrangement and \<open>squareStart\<close> after it.
  \<open>dotArtwork\<close> is a single point, whose bounds have no width and no height;
  \<open>flatArtwork\<close> is a horizontal stroke, whose bounds have a width and no height,
  and \<open>flatInitial\<close> the object before the constructor's arrangement of it.
  \<open>corruptedFrame\<close> is \<open>squareStart\<close> with the first vertex of the outline replaced
  by a segment that is no corner. \<open>editedSquare\<close> is \<open>squareStart\<close> after a
  midpoint insertion at its first splitter handle. \<open>horizontalLine\<close> is a straight
  path of length 10.
\<close>

definition squareArtwork :: "point list list" where
  "squareArtwork = [[Point 0 0, Point 10 0, Point 10 10, Point 0 10]]"

definition squareInitial :: "(point list list) stretchyPath" where
  "squareInitial = updateMidpiontMarkers (createSegmentMarkers (createOutline polylineEngine squareArtwork))"

definition squareStart :: "(point list list) stretchyPath" where
  "squareStart = snd (arrangeContents polylineEngine squareInitial)"

definition dotArtwork :: "point list list" where
  "dotArtwork = [[Point 5 5]]"

definition flatArtwork :: "point list list" where
  "flatArtwork = [[Point 0 5, Point 10 5]]"

definition flatInitial :: "(point list list) stretchyPath" where
  "flatInitial = updateMidpiontMarkers (createSegmentMarkers (createOutline polylineEngine flatArtwork))"

definition corruptedFrame :: "(point list list) stretchyPath" where
  "corruptedFrame = squareStart\<lparr>outline := [4, 1, 2, 3], segPoint := (segPoint squareStart)(4 := Point 1 1)\<rparr>"

definition horizontalLine :: curvelike where
  "horizontalLine = polylineCurve [Point 0 0, Point 10 0]"

definition editedSquare :: "(point list list) stretchyPath" where
  "editedSquare = applyEdits polylineEngine [MidpointInserted 0 (Point 5 0)] squareStart"

section \<open>Properties of the walk\<close>

lemma walk_None:
  "walk isClose pt segs sides grp None q = Inr r \<Longrightarrow> segs = [] \<and> r = (sides, grp, None, q)"
  by (cases segs) auto

lemma joinSides_snoc:
  "sides \<noteq> [] \<Longrightarrow> joinSides (sides @ [g]) = joinSides sides @ tl g"
  by (cases sides) auto

lemma walk_join:
  "walk isClose pt segs sides grp target q = Inr (r, g', t', q') \<Longrightarrow> (sides \<noteq> [] \<Longrightarrow> grp \<noteq> []) \<Longrightarrow>
     list_all (\<lambda>s. s \<noteq> None) segs \<and>
     joinSides (r @ [g']) = joinSides (sides @ [grp]) @ map the segs \<and> (r \<noteq> [] \<longrightarrow> g' \<noteq> [])"
proof (induction segs arbitrary: sides grp target q)
  case Nil
  then show ?case by auto
next
  case (Cons s segs)
  from Cons.prems(1) obtain t sg where t: "target = Some t" and s: "s = Some sg"
    by (auto split: option.splits)
  show ?case
  proof (cases "isClose t (pt sg)")
    case True
    with Cons.prems t s have w: "walk isClose pt segs (sides @ [grp @ [sg]]) [sg]
                      (fst (shift q)) (snd (shift q)) = Inr (r, g', t', q')" by simp
    from Cons.IH[OF w] have ih: "list_all (\<lambda>s. s \<noteq> None) segs"
       "joinSides (r @ [g']) = joinSides ((sides @ [grp @ [sg]]) @ [[sg]]) @ map the segs"
       "r \<noteq> [] \<longrightarrow> g' \<noteq> []" by auto
    have "joinSides ((sides @ [grp @ [sg]]) @ [[sg]]) = joinSides (sides @ [grp]) @ [sg]"
      using Cons.prems(2) by (cases sides) (auto simp: joinSides_snoc)
    with ih s show ?thesis by simp
  next
    case False
    with Cons.prems t s have w: "walk isClose pt segs sides (grp @ [sg]) target q = Inr (r, g', t', q')" by simp
    from Cons.IH[OF w] Cons.prems(2) have ih: "list_all (\<lambda>s. s \<noteq> None) segs"
       "joinSides (r @ [g']) = joinSides (sides @ [grp @ [sg]]) @ map the segs"
       "r \<noteq> [] \<longrightarrow> g' \<noteq> []" by auto
    have "joinSides (sides @ [grp @ [sg]]) = joinSides (sides @ [grp]) @ [sg]"
      using Cons.prems(2) by (cases sides) (auto simp: joinSides_snoc)
    with ih s show ?thesis by simp
  qed
qed

lemma walk_last_match:
  "walk isClose pt segs sides grp (Some t) q = Inr (r, g', None, q') \<Longrightarrow>
     segs \<noteq> [] \<and> g' = [the (last segs)] \<and> r \<noteq> []"
proof (induction segs arbitrary: sides grp t q)
  case Nil
  then show ?case by simp
next
  case (Cons s segs)
  from Cons.prems(1) obtain sg where s: "s = Some sg"
    by (auto split: option.splits)
  show ?case
  proof (cases "isClose t (pt sg)")
    case True
    with Cons.prems s have w: "walk isClose pt segs (sides @ [grp @ [sg]]) [sg]
                      (fst (shift q)) (snd (shift q)) = Inr (r, g', None, q')" by simp
    show ?thesis
    proof (cases "fst (shift q)")
      case None
      with w walk_None[of isClose pt segs] have "segs = []" "r = sides @ [grp @ [sg]]" "g' = [sg]"
        by auto
      with s show ?thesis by simp
    next
      case (Some t2)
      with w Cons.IH[of "sides @ [grp @ [sg]]" "[sg]" t2 "snd (shift q)"] show ?thesis by auto
    qed
  next
    case False
    with Cons.prems s have w: "walk isClose pt segs sides (grp @ [sg]) (Some t) q = Inr (r, g', None, q')" by simp
    from Cons.IH[OF w] show ?thesis by auto
  qed
qed

lemma walk_count:
  "walk isClose pt segs sides grp target q = Inr (r, g', t', q') \<Longrightarrow>
     length sides \<le> length r \<and> (length q < length r - length sides \<longrightarrow> t' = None)"
proof (induction segs arbitrary: sides grp target q)
  case Nil
  then show ?case by auto
next
  case (Cons s segs)
  from Cons.prems(1) obtain t sg where t: "target = Some t" and s: "s = Some sg"
    by (auto split: option.splits)
  show ?case
  proof (cases "isClose t (pt sg)")
    case True
    with Cons.prems t s have w: "walk isClose pt segs (sides @ [grp @ [sg]]) [sg]
                      (fst (shift q)) (snd (shift q)) = Inr (r, g', t', q')" by simp
    from Cons.IH[OF w] have ih: "Suc (length sides) \<le> length r"
      "length (snd (shift q)) < length r - Suc (length sides) \<longrightarrow> t' = None" by auto
    show ?thesis
    proof (cases q)
      case Nil
      with w walk_None[of isClose pt segs] have "t' = None" by auto
      with ih show ?thesis by simp
    next
      case (Cons a list)
      with ih show ?thesis by auto
    qed
  next
    case False
    with Cons.prems t s have w: "walk isClose pt segs sides (grp @ [sg]) target q = Inr (r, g', t', q')" by simp
    from Cons.IH[OF w] show ?thesis by auto
  qed
qed

lemma chained_snoc_grow:
  "chained (sides @ [g]) \<Longrightarrow> (sides \<noteq> [] \<Longrightarrow> g \<noteq> []) \<Longrightarrow> chained (sides @ [g @ [x]])"
proof (induction sides rule: chained.induct)
  case 1
  then show ?case by simp
next
  case (2 s)
  then show ?case by simp
next
  case (3 s t r)
  then show ?case by simp
qed

lemma chained_snoc_close:
  "chained (sides @ [g]) \<Longrightarrow> g \<noteq> [] \<Longrightarrow> chained (sides @ [g, [last g]])"
  by (induction sides rule: chained.induct) auto

lemma chained_butlast: "chained (sides @ [g]) \<Longrightarrow> chained sides"
  by (induction sides rule: chained.induct) auto

lemma chained_nth:
  "chained sides \<Longrightarrow> Suc i < length sides \<Longrightarrow>
     sides ! i \<noteq> [] \<and> sides ! Suc i \<noteq> [] \<and> hd (sides ! Suc i) = last (sides ! i)"
proof (induction sides arbitrary: i rule: chained.induct)
  case 1
  then show ?case by simp
next
  case (2 s)
  then show ?case by simp
next
  case (3 s t r)
  then show ?case by (cases i) auto
qed

lemma walk_chained:
  "walk isClose pt segs sides grp target q = Inr (r, g', t', q') \<Longrightarrow>
     chained (sides @ [grp]) \<Longrightarrow> (sides \<noteq> [] \<Longrightarrow> grp \<noteq> []) \<Longrightarrow> chained (r @ [g'])"
proof (induction segs arbitrary: sides grp target q)
  case Nil
  then show ?case by auto
next
  case (Cons s segs)
  from Cons.prems(1) obtain t sg where t: "target = Some t" and s: "s = Some sg"
    by (auto split: option.splits)
  have grow: "chained (sides @ [grp @ [sg]])"
    using Cons.prems(2,3) by (rule chained_snoc_grow)
  show ?case
  proof (cases "isClose t (pt sg)")
    case True
    with Cons.prems t s have w: "walk isClose pt segs (sides @ [grp @ [sg]]) [sg]
                      (fst (shift q)) (snd (shift q)) = Inr (r, g', t', q')" by simp
    have "chained (sides @ [grp @ [sg], [last (grp @ [sg])]])"
      using grow by (rule chained_snoc_close) simp
    then have "chained ((sides @ [grp @ [sg]]) @ [[sg]])" by simp
    from Cons.IH[OF w this] show ?thesis by simp
  next
    case False
    with Cons.prems t s have w: "walk isClose pt segs sides (grp @ [sg]) target q = Inr (r, g', t', q')" by simp
    from Cons.IH[OF w grow] show ?thesis by simp
  qed
qed

lemma walk_skip:
  "\<forall>m \<in> set ms. \<not> isClose t (pt m) \<Longrightarrow>
     walk isClose pt (map Some ms @ rest) sides grp (Some t) q =
     walk isClose pt rest sides (grp @ ms) (Some t) q"
  by (induction ms arbitrary: grp) auto

lemma walk_match:
  "isClose t (pt c) \<Longrightarrow>
     walk isClose pt (Some c # rest) sides grp (Some t) q =
     walk isClose pt rest (sides @ [grp @ [c]]) [c] (fst (shift q)) (snd (shift q))"
  by simp

lemma getOutlineSidesOf_succeeds:
  assumes len: "length crs = 4"
    and ok: "getOutlineSidesOf isClose pt crs segments = Inr sides"
  shows "length sides = 4 \<and> segments \<noteq> [] \<and> joinSides sides = segments @ [hd segments]"
proof -
  from len obtain c0 c1 c2 c3 where cs: "crs = [c0, c1, c2, c3]"
    by (auto simp: length_Suc_conv numeral_eq_Suc)
  let ?sl = "map Some segments @ [elemAt segments 0]"
  let ?q = "[Some (pt c2), Some (pt c3), Some (pt c0)]"
  from ok cs obtain g t' q' where
    w: "walk isClose pt ?sl [] [] (Some (pt c1)) ?q = Inr (sides, g, t', q')" and l4: "length sides = 4"
    by (auto simp: getOutlineSidesOf_def Let_def split: sum.splits if_splits)
  from walk_count[OF w] l4 have t': "t' = None" by simp
  from walk_last_match[OF w[unfolded t']] have g: "g = [the (last ?sl)]" and ne: "sides \<noteq> []" by auto
  from walk_join[OF w] have all: "list_all (\<lambda>s. s \<noteq> None) ?sl"
    and j: "joinSides (sides @ [g]) = joinSides ([] @ [[]]) @ map the ?sl" by auto
  from all have sne: "segments \<noteq> []" by (auto simp: elemAt_def split: if_splits)
  then have e0: "elemAt segments 0 = Some (hd segments)"
    by (cases segments) (auto simp: elemAt_def)
  have "joinSides (sides @ [g]) = joinSides sides" using ne g by (simp add: joinSides_snoc)
  with j e0 have "joinSides sides = segments @ [hd segments]" by (simp add: comp_def)
  with l4 sne show ?thesis by simp
qed

lemma getOutlineSidesOf_chained:
  assumes ok: "getOutlineSidesOf isClose pt crs segments = Inr sides"
  shows "chained sides"
proof -
  from ok obtain tc q g t' q' where
    w: "walk isClose pt (map Some segments @ [elemAt segments 0]) [] [] tc q = Inr (sides, g, t', q')"
    by (auto simp: getOutlineSidesOf_def Let_def split: sum.splits if_splits)
  have "chained (sides @ [g])" by (rule walk_chained[OF w]) simp_all
  then show ?thesis by (rule chained_butlast)
qed

lemma getOutlineSidesOf_valid:
  assumes r1: "isClose (pt c1) (pt c1)" and r2: "isClose (pt c2) (pt c2)"
    and r3: "isClose (pt c3) (pt c3)" and r0: "isClose (pt c0) (pt c0)"
    and n1: "\<forall>m \<in> set (c0 # m0). \<not> isClose (pt c1) (pt m)"
    and n2: "\<forall>m \<in> set m1. \<not> isClose (pt c2) (pt m)"
    and n3: "\<forall>m \<in> set m2. \<not> isClose (pt c3) (pt m)"
    and n0: "\<forall>m \<in> set m3. \<not> isClose (pt c0) (pt m)"
  shows "getOutlineSidesOf isClose pt [c0, c1, c2, c3] (c0 # m0 @ c1 # m1 @ c2 # m2 @ c3 # m3) =
           Inr [c0 # m0 @ [c1], c1 # m1 @ [c2], c2 # m2 @ [c3], c3 # m3 @ [c0]]"
proof -
  let ?segs = "c0 # m0 @ c1 # m1 @ c2 # m2 @ c3 # m3"
  have sl: "map Some ?segs @ [elemAt ?segs 0] =
      map Some (c0 # m0) @ Some c1 # map Some m1 @ Some c2 # map Some m2 @ Some c3 # map Some m3 @ [Some c0]"
    by (simp add: elemAt_def)
  have pre: "getOutlineSidesOf isClose pt [c0, c1, c2, c3] ?segs =
      (case walk isClose pt (map Some ?segs @ [elemAt ?segs 0]) [] [] (Some (pt c1))
          [Some (pt c2), Some (pt c3), Some (pt c0)] of
           Inl e \<Rightarrow> Inl e
         | Inr (sides, segmentGroup, target, rest) \<Rightarrow>
             if length sides \<noteq> 4 then Inl FailedToGetSides else Inr sides)"
    by (simp only: getOutlineSidesOf_def Let_def list.map shift.simps fst_conv snd_conv append.simps)
  have w: "walk isClose pt (map Some ?segs @ [elemAt ?segs 0]) [] [] (Some (pt c1))
          [Some (pt c2), Some (pt c3), Some (pt c0)] =
        Inr ([c0 # m0 @ [c1], c1 # m1 @ [c2], c2 # m2 @ [c3], c3 # m3 @ [c0]], [c0], None, [])"
    unfolding sl
    apply (subst walk_skip[where isClose=isClose and pt=pt and t="pt c1" and ms="c0 # m0", OF n1])
    apply (subst walk_match[where isClose=isClose and pt=pt and t="pt c1" and c=c1, OF r1])
    apply (simp only: shift.simps fst_conv snd_conv)
    apply (subst walk_skip[where isClose=isClose and pt=pt and t="pt c2" and ms="m1", OF n2])
    apply (subst walk_match[where isClose=isClose and pt=pt and t="pt c2" and c=c2, OF r2])
    apply (simp only: shift.simps fst_conv snd_conv)
    apply (subst walk_skip[where isClose=isClose and pt=pt and t="pt c3" and ms="m2", OF n3])
    apply (subst walk_match[where isClose=isClose and pt=pt and t="pt c3" and c=c3, OF r3])
    apply (simp only: shift.simps fst_conv snd_conv)
    apply (subst walk_skip[where isClose=isClose and pt=pt and t="pt c0" and ms="m3", OF n0])
    apply (subst walk_match[where isClose=isClose and pt=pt and t="pt c0" and c=c0, OF r0])
    apply simp
    done
  show ?thesis unfolding pre w by simp
qed

lemma walk_targets:
  "walk isClose pt segs sides grp target q = Inr (r, g', t', q') \<Longrightarrow>
     \<exists>new. r = sides @ new \<and> length new \<le> Suc (length q) \<and>
       list_all2 (\<lambda>side tgt. side \<noteq> [] \<and> (\<exists>t. tgt = Some t \<and> isClose t (pt (last side))))
         new (take (length new) (target # q))"
proof (induction segs arbitrary: sides grp target q)
  case Nil
  then show ?case by simp
next
  case (Cons s segs)
  from Cons.prems(1) obtain t sg where t: "target = Some t" and s: "s = Some sg"
    by (auto split: option.splits)
  show ?case
  proof (cases "isClose t (pt sg)")
    case True
    with Cons.prems t s have w: "walk isClose pt segs (sides @ [grp @ [sg]]) [sg]
                      (fst (shift q)) (snd (shift q)) = Inr (r, g', t', q')" by simp
    show ?thesis
    proof (cases q)
      case Nil
      with w walk_None[of isClose pt segs] have "r = sides @ [grp @ [sg]]" by auto
      with True t Nil show ?thesis by simp
    next
      case (Cons t2 q2)
      with w have w2: "walk isClose pt segs (sides @ [grp @ [sg]]) [sg] t2 q2 = Inr (r, g', t', q')"
        by simp
      from Cons.IH[OF w2] obtain new where n: "r = (sides @ [grp @ [sg]]) @ new"
        "length new \<le> Suc (length q2)"
        "list_all2 (\<lambda>side tgt. side \<noteq> [] \<and> (\<exists>t. tgt = Some t \<and> isClose t (pt (last side))))
           new (take (length new) (t2 # q2))" by blast
      have "r = sides @ ((grp @ [sg]) # new)" using n(1) by simp
      moreover have "length ((grp @ [sg]) # new) \<le> Suc (length q)" using n(2) Cons by simp
      moreover have "list_all2 (\<lambda>side tgt. side \<noteq> [] \<and> (\<exists>t. tgt = Some t \<and> isClose t (pt (last side))))
           ((grp @ [sg]) # new) (take (length ((grp @ [sg]) # new)) (target # q))"
        using n(3) True t Cons by simp
      ultimately show ?thesis by blast
    qed
  next
    case False
    with Cons.prems t s have w: "walk isClose pt segs sides (grp @ [sg]) target q = Inr (r, g', t', q')" by simp
    from Cons.IH[OF w] show ?thesis .
  qed
qed

lemma shift_cons: "vs \<noteq> [] \<Longrightarrow> fst (shift vs) # snd (shift vs) = vs"
  by (cases vs) auto

lemma getOutlineSidesOf_matched:
  assumes ok: "getOutlineSidesOf isClose pt crs segments = Inr sides" and i: "i < length sides"
  shows "i < length crs \<and> sides ! i \<noteq> [] \<and>
         isClose (pt (rotate1 crs ! i)) (pt (last (sides ! i)))"
proof -
  let ?cp = "map (\<lambda>c. Some (pt c)) crs"
  let ?cp1 = "snd (shift ?cp) @ [fst (shift ?cp)]"
  from ok obtain g t' q' where
    w: "walk isClose pt (map Some segments @ [elemAt segments 0]) [] [] (fst (shift ?cp1)) (snd (shift ?cp1))
          = Inr (sides, g, t', q')" and l4: "length sides = 4"
    by (auto simp: getOutlineSidesOf_def Let_def split: sum.splits if_splits)
  have tq: "fst (shift ?cp1) # snd (shift ?cp1) = ?cp1" by (rule shift_cons) simp
  from walk_targets[OF w, unfolded tq] have len: "length sides \<le> Suc (length (snd (shift ?cp1)))"
    and all: "list_all2 (\<lambda>side tgt. side \<noteq> [] \<and> (\<exists>t. tgt = Some t \<and> isClose t (pt (last side))))
         sides (take (length sides) ?cp1)"
    by auto
  have l1: "length ?cp1 = Suc (length (snd (shift ?cp1)))" using tq by (metis length_Cons)
  have ne: "crs \<noteq> []"
  proof
    assume "crs = []"
    then have "length ?cp1 = 1" by simp
    with l1 len l4 show False by simp
  qed
  then have cp1: "?cp1 = map (\<lambda>c. Some (pt c)) (rotate1 crs)" by (cases crs) auto
  from len l1 have lc: "length sides \<le> length crs" by (simp add: cp1)
  from all i have "sides ! i \<noteq> [] \<and> (\<exists>t. take (length sides) ?cp1 ! i = Some t \<and> isClose t (pt (last (sides ! i))))"
    by (auto simp: list_all2_conv_all_nth)
  with i lc show ?thesis by (simp add: cp1)
qed

section \<open>What an arrangement changes\<close>

lemma arrangePath_frame:
  "corners (snd (arrangePath E s)) = corners s"
  "outline (snd (arrangePath E s)) = outline s"
  "segPoint (snd (arrangePath E s)) = segPoint s"
  "sourcePath (snd (arrangePath E s)) = sourcePath s"
  "midpointGroup (snd (arrangePath E s)) = midpointGroup s"
  "segmentHandles (snd (arrangePath E s)) = segmentHandles s"
  by (simp_all add: arrangePath_def Let_def split: sum.splits)

lemma arrangeContents_frame:
  "corners (snd (arrangeContents E s)) = corners s"
  "outline (snd (arrangeContents E s)) = outline s"
  "segPoint (snd (arrangeContents E s)) = segPoint s"
  "sourcePath (snd (arrangeContents E s)) = sourcePath s"
  "segmentHandles (snd (arrangeContents E s)) = segmentHandles s"
  by (simp_all add: arrangeContents_def arrangePath_frame updateMidpiontMarkers_def)

lemma arrangeContents_midpointGroup:
  "midpointGroup (snd (arrangeContents E s)) =
     filter (\<lambda>curve. \<not> (Some (fst curve) = elemAt (corners s) 1 \<or> Some (fst curve) = elemAt (corners s) 3))
       (curvesOf (outline s))"
  by (simp add: arrangeContents_def arrangePath_frame updateMidpiontMarkers_def)

lemma arrangePath_cong:
  assumes "corners s' = corners s" "outline s' = outline s" "segPoint s' = segPoint s"
    "sourcePath s' = sourcePath s"
  shows "fst (arrangePath E s') = fst (arrangePath E s)"
    and "fst (arrangePath E s) = None \<Longrightarrow> displayPath (snd (arrangePath E s')) = displayPath (snd (arrangePath E s))"
    and "fst (arrangePath E s) \<noteq> None \<Longrightarrow> displayPath (snd (arrangePath E s')) = displayPath s'"
  using assms
  by (auto simp: arrangePath_def getOutlineSides_def Let_def split: sum.splits)

lemma foldr_max_ge: "v \<in> set vs \<Longrightarrow> v \<le> foldr max vs (0::nat)"
  by (induction vs) (auto simp: max_def)

lemma freshRef_fresh: "freshRef s \<notin> set (outline s)"
proof
  assume "freshRef s \<in> set (outline s)"
  then have "freshRef s \<le> foldr max (outline s) 0" by (rule foldr_max_ge)
  then show False by (simp add: freshRef_def)
qed

lemma insertAfter_append:
  "a \<notin> set xs \<Longrightarrow> insertAfter a n (xs @ a # ys) = xs @ a # n # ys"
  by (induction xs) auto

lemma insertAfter_distinct:
  "distinct xs \<Longrightarrow> n \<notin> set xs \<Longrightarrow> distinct (insertAfter a n xs) \<and> set (insertAfter a n xs) \<subseteq> insert n (set xs)"
  by (induction xs) auto

lemma insertAfter_shape:
  assumes d: "distinct (0 # tops @ [1, 2] @ bots @ [3::nat])"
    and a: "a \<in> set (0 # tops @ [1, 2] @ bots @ [3])" "a \<noteq> 1" "a \<noteq> 3"
  shows "\<exists>tops' bots'. insertAfter a n (0 # tops @ [1, 2] @ bots @ [3]) = 0 # tops' @ [1, 2] @ bots' @ [3]"
proof -
  from a consider "a = 0" | "a \<in> set tops" | "a = 2" | "a \<in> set bots" by auto
  then show ?thesis
  proof cases
    case 1
    then have "insertAfter a n (0 # tops @ [1, 2] @ bots @ [3]) = 0 # (n # tops) @ [1, 2] @ bots @ [3]"
      by simp
    then show ?thesis by blast
  next
    case 2
    then obtain t1 t2 where t: "tops = t1 @ a # t2" "a \<notin> set t1"
      by (auto dest: split_list_first)
    have "insertAfter a n ((0 # t1) @ a # (t2 @ [1, 2] @ bots @ [3])) = (0 # t1) @ a # n # (t2 @ [1, 2] @ bots @ [3])"
      using t(2) 2 d by (intro insertAfter_append) auto
    then have "insertAfter a n (0 # tops @ [1, 2] @ bots @ [3]) = 0 # (t1 @ a # n # t2) @ [1, 2] @ bots @ [3]"
      using t(1) by simp
    then show ?thesis by blast
  next
    case 3
    have "insertAfter a n ((0 # tops @ [1]) @ a # (bots @ [3])) = (0 # tops @ [1]) @ a # n # (bots @ [3])"
      using 3 d by (intro insertAfter_append) auto
    then have "insertAfter a n (0 # tops @ [1, 2] @ bots @ [3]) = 0 # tops @ [1, 2] @ (n # bots) @ [3]"
      using 3 by simp
    then show ?thesis by blast
  next
    case 4
    then obtain b1 b2 where b: "bots = b1 @ a # b2" "a \<notin> set b1"
      by (auto dest: split_list_first)
    have "insertAfter a n ((0 # tops @ [1, 2] @ b1) @ a # (b2 @ [3])) = (0 # tops @ [1, 2] @ b1) @ a # n # (b2 @ [3])"
      using b 4 d by (intro insertAfter_append) auto
    then have "insertAfter a n (0 # tops @ [1, 2] @ bots @ [3]) = 0 # tops @ [1, 2] @ (b1 @ a # n # b2) @ [3]"
      using b(1) by simp
    then show ?thesis by blast
  qed
qed

lemma framed_arrangeContents:
  assumes "corners s = [0, 1, 2, 3]" "distinct (outline s)"
    "\<exists>tops bots. outline s = 0 # tops @ [1, 2] @ bots @ [3]"
  shows "framed (snd (arrangeContents E s))"
  using assms by (simp add: framed_def arrangeContents_frame arrangeContents_midpointGroup)

lemma framed_cornerMoved: "framed s \<Longrightarrow> framed (snd (cornerMoved E r p s))"
proof -
  assume f: "framed s"
  show ?thesis
  proof (cases "r \<in> set (segmentHandles s)")
    case True
    have "framed (snd (arrangeContents E (moveSegment r p s)))"
      using f by (intro framed_arrangeContents) (simp_all add: framed_def moveSegment_def)
    with True show ?thesis by (simp add: cornerMoved_def onChangeComplete_def)
  next
    case False
    with f show ?thesis by (simp add: cornerMoved_def)
  qed
qed

lemma in_curvesOf_fst: "c \<in> set (curvesOf xs) \<Longrightarrow> fst c \<in> set xs"
  by (cases c) (auto simp: curvesOf_def dest: set_zip_leftD)

lemma framed_midpointInserted: "framed s \<Longrightarrow> framed (snd (midpointInserted E k p s))"
proof -
  assume f: "framed s"
  show ?thesis
  proof (cases "elemAt (midpointGroup s) k")
    case None
    with f show ?thesis by (simp add: midpointInserted_def)
  next
    case (Some h)
    then have "h \<in> set (midpointGroup s)" by (auto simp: elemAt_def split: if_splits)
    with f have h: "fst h \<in> set (outline s)" "fst h \<noteq> 1" "fst h \<noteq> 3"
      by (auto simp: framed_def elemAt_def dest: in_curvesOf_fst)
    from f obtain tops bots where o: "outline s = 0 # tops @ [1, 2] @ bots @ [3]"
      and d: "distinct (outline s)" and c: "corners s = [0, 1, 2, 3]"
      by (auto simp: framed_def)
    let ?n = "freshRef s"
    let ?s' = "divideCurve h ?n p s\<lparr>segmentHandles := segmentHandles (divideCurve h ?n p s) @ [?n],
             midpointGroup := remove1 h (midpointGroup (divideCurve h ?n p s))\<rparr>"
    have o': "outline ?s' = insertAfter (fst h) ?n (outline s)" by (simp add: divideCurve_def)
    have "framed (snd (arrangeContents E ?s'))"
    proof (rule framed_arrangeContents)
      show "corners ?s' = [0, 1, 2, 3]" using c by (simp add: divideCurve_def)
      show "distinct (outline ?s')" unfolding o'
        using insertAfter_distinct[OF d freshRef_fresh] by blast
      show "\<exists>tops bots. outline ?s' = 0 # tops @ [1, 2] @ bots @ [3]"
        unfolding o' using insertAfter_shape[of tops bots "fst h" ?n] h d o by simp
    qed
    with Some show ?thesis by (simp add: midpointInserted_def onDragEnd_def)
  qed
qed

lemma framed_applyEdits: "framed s \<Longrightarrow> framed (applyEdits E es s)"
proof (induction es arbitrary: s)
  case Nil
  then show ?case by simp
next
  case (Cons e es)
  have "framed (applyEdit E e s)"
    using Cons.prems by (cases e) (simp_all add: framed_cornerMoved framed_midpointInserted)
  then show ?case using Cons.IH by simp
qed

lemma framed_constructed: "framed (constructed E source)"
proof -
  let ?i = "updateMidpiontMarkers (createSegmentMarkers (createOutline E source))"
  have up: "[0..<4] = [0, 1, 2, 3::nat]" by (simp add: upt_rec)
  have "framed (snd (arrangeContents E ?i))"
  proof (rule framed_arrangeContents)
    show "corners ?i = [0, 1, 2, 3]"
      by (simp add: updateMidpiontMarkers_def createSegmentMarkers_def createOutline_def
          PaperHelpers_corners_def Let_def up)
    show "distinct (outline ?i)"
      by (simp add: updateMidpiontMarkers_def createSegmentMarkers_def createOutline_def
          PaperHelpers_corners_def Let_def)
    have "outline ?i = 0 # [] @ [1, 2] @ [] @ [3]"
      by (simp add: updateMidpiontMarkers_def createSegmentMarkers_def createOutline_def
          PaperHelpers_corners_def Let_def up)
    then show "\<exists>tops bots. outline ?i = 0 # tops @ [1, 2] @ bots @ [3]" by blast
  qed
  then show ?thesis by (simp add: constructed_def)
qed

lemma construct_constructed: "construct E source = Inr start \<Longrightarrow> start = constructed E source"
  by (auto simp: construct_def constructed_def split: prod.splits option.splits)

lemma sideOf_split:
  assumes "distinct (A @ a # M @ b # B)"
  shows "sideOf (A @ a # M @ b # B) a b = a # M @ [b]"
proof -
  have d: "dropWhile (\<lambda>v. v \<noteq> a) (A @ a # M @ b # B) = a # M @ b # B"
    using assms by (subst dropWhile_append2) auto
  have t: "takeWhile (\<lambda>v. v \<noteq> a) (A @ a # M @ b # B) = A"
    using assms by (subst takeWhile_append2) auto
  have "takeWhile (\<lambda>v. v \<noteq> b) (M @ b # B @ A) = M"
    using assms by (subst takeWhile_append2) auto
  with d t show ?thesis by (simp add: sideOf_def)
qed

lemma sideOf_wrap:
  assumes "distinct (b # M' @ a # M)"
  shows "sideOf (b # M' @ a # M) a b = a # M @ [b]"
proof -
  have d: "dropWhile (\<lambda>v. v \<noteq> a) ((b # M') @ a # M) = a # M"
    using assms by (subst dropWhile_append2) auto
  have t: "takeWhile (\<lambda>v. v \<noteq> a) ((b # M') @ a # M) = b # M'"
    using assms by (subst takeWhile_append2) auto
  have "takeWhile (\<lambda>v. v \<noteq> b) (M @ b # M') = M"
    using assms by (subst takeWhile_append2) auto
  with d t show ?thesis by (simp add: sideOf_def)
qed

lemma pairs_append:
  "zip (A @ x # B) (tl (A @ x # B)) = zip (A @ [x]) (tl (A @ [x])) @ zip (x # B) B"
proof (induction A)
  case Nil
  then show ?case by simp
next
  case (Cons a A)
  then show ?case by (cases A) auto
qed

lemma zip_trunc: "length zs \<le> length xs \<Longrightarrow> zip (xs @ ys) zs = zip xs zs"
  by (simp add: zip_append1)

lemma curvesOf_pairs:
  "curvesOf (v # vs) = zip (v # vs @ [v]) (vs @ [v])"
  using zip_trunc[of "vs @ [v]" "v # vs" "[v]"] by (simp add: curvesOf_def)

lemma filter_zip_keep:
  "\<forall>v \<in> set A. P v \<Longrightarrow> filter (\<lambda>c. P (fst c)) (zip A B) = zip A B"
  by (rule filter_True) (auto dest: set_zip_leftD)

lemma framed_sides:
  assumes f: "framed s"
  obtains tops bots where
    "outline s = 0 # tops @ [1, 2] @ bots @ [3]"
    "sideOf (outline s) 0 1 = 0 # tops @ [1]"
    "sideOf (outline s) 1 2 = [1, 2]"
    "sideOf (outline s) 2 3 = 2 # bots @ [3]"
    "sideOf (outline s) 3 0 = [3, 0]"
    "midpointGroup s = zip (0 # tops @ [1]) (tops @ [1]) @ zip (2 # bots @ [3]) (bots @ [3])"
proof -
  from f obtain tops bots where o: "outline s = 0 # tops @ [1, 2] @ bots @ [3]"
    and d: "distinct (outline s)" and c: "corners s = [0, 1, 2, 3]"
    and m: "midpointGroup s =
       filter (\<lambda>curve. \<not> (Some (fst curve) = elemAt (corners s) 1 \<or> Some (fst curve) = elemAt (corners s) 3))
         (curvesOf (outline s))"
    by (auto simp: framed_def)
  have s01: "sideOf (outline s) 0 1 = 0 # tops @ [1]"
    using sideOf_split[of "[]" 0 tops 1 "2 # bots @ [3]"] d o by simp
  have s12: "sideOf (outline s) 1 2 = [1, 2]"
    using sideOf_split[of "0 # tops" 1 "[]" 2 "bots @ [3]"] d o by simp
  have s23: "sideOf (outline s) 2 3 = 2 # bots @ [3]"
    using sideOf_split[of "0 # tops @ [1]" 2 bots 3 "[]"] d o by simp
  have s30: "sideOf (outline s) 3 0 = [3, 0]"
    using sideOf_wrap[of 0 "tops @ [1, 2] @ bots" 3 "[]"] d o by simp
  have cv: "curvesOf (outline s) =
      zip (0 # tops) (tops @ [1]) @ [(1, 2)] @ zip (2 # bots) (bots @ [3]) @ [(3, 0)]"
  proof -
    have "curvesOf (outline s) = zip (0 # tops @ 1 # 2 # bots @ 3 # [0]) (tl (0 # tops @ 1 # 2 # bots @ 3 # [0]))"
      unfolding o by (simp add: curvesOf_pairs)
    also have "\<dots> = zip ((0 # tops) @ [1]) (tl ((0 # tops) @ [1])) @ zip (1 # 2 # bots @ 3 # [0]) (2 # bots @ 3 # [0])"
      using pairs_append[of "0 # tops" 1 "2 # bots @ 3 # [0]"] by simp
    also have "zip (1 # 2 # bots @ 3 # [0]) (2 # bots @ 3 # [0]) = (1, 2) # zip (2 # bots @ 3 # [0]) (bots @ 3 # [0])"
      by simp
    also have "zip (2 # bots @ 3 # [0]) (bots @ 3 # [0]) = zip ((2 # bots) @ [3]) (tl ((2 # bots) @ [3])) @ zip (3 # [0]) [0]"
      using pairs_append[of "2 # bots" 3 "[0]"] by simp
    finally show ?thesis
      using zip_trunc[of "tops @ [1]" "0 # tops" "[1]"] zip_trunc[of "bots @ [3]" "2 # bots" "[3]"]
      by simp
  qed
  have k1: "filter (\<lambda>c. fst c \<noteq> 1 \<and> fst c \<noteq> 3) (zip (0 # tops) (tops @ [1])) = zip (0 # tops) (tops @ [1])"
    using d o by (intro filter_zip_keep[where P="\<lambda>v. v \<noteq> 1 \<and> v \<noteq> 3"]) auto
  have k2: "filter (\<lambda>c. fst c \<noteq> 1 \<and> fst c \<noteq> 3) (zip (2 # bots) (bots @ [3])) = zip (2 # bots) (bots @ [3])"
    using d o by (intro filter_zip_keep[where P="\<lambda>v. v \<noteq> 1 \<and> v \<noteq> 3"]) auto
  have "midpointGroup s = zip (0 # tops) (tops @ [1]) @ zip (2 # bots) (bots @ [3])"
    unfolding m cv c using k1 k2 by (simp add: elemAt_def)
  then have "midpointGroup s = zip (0 # tops @ [1]) (tops @ [1]) @ zip (2 # bots @ [3]) (bots @ [3])"
    using zip_trunc[of "tops @ [1]" "0 # tops" "[1]"] zip_trunc[of "bots @ [3]" "2 # bots" "[3]"]
    by simp
  with o s01 s12 s23 s30 show ?thesis by (rule that)
qed



lemmas demo_defs = polylineEngine_def squareArtwork_def pointsBounds_def closeWithin_def
  polylineCurve_def segmentLength_def lerp_def add_def subtract_def multiply_def
  topRight_def bottomRight_def bottomLeft_def PaperHelpers_corners_def

lemma upt4: "[0..<4] = [0, 1, 2, 3::nat]"
  by (simp add: upt_rec)

lemma updateMidpiontMarkers_twice:
  "updateMidpiontMarkers (updateMidpiontMarkers s) = updateMidpiontMarkers s"
  by (simp add: updateMidpiontMarkers_def)

lemma squareInitial_fields:
  "corners squareInitial = [0, 1, 2, 3]"
  "outline squareInitial = [0, 1, 2, 3]"
  "sourcePath squareInitial = squareArtwork"
  "displayPath squareInitial = None"
  "segmentHandles squareInitial = [0, 1, 2, 3]"
  "segPoint squareInitial 0 = Point 0 0"
  "segPoint squareInitial 1 = Point 10 0"
  "segPoint squareInitial (Suc 0) = Point 10 0"
  "segPoint squareInitial 2 = Point 10 10"
  "segPoint squareInitial 3 = Point 0 10"
  "segPoint squareInitial 4 = Point 0 0"
  by (simp_all add: squareInitial_def updateMidpiontMarkers_def createSegmentMarkers_def
      createOutline_def Let_def upt4 demo_defs)

lemma square_sides:
  "getOutlineSides polylineEngine squareInitial = Inr [[0, 1], [1, 2], [2, 3], [3, 0]]"
  by (simp add: getOutlineSides_def getOutlineSidesOf_def Let_def squareInitial_fields elemAt_def
      polylineEngine_def closeWithin_def)

lemma square_arranged:
  "arrangePath polylineEngine squareInitial = (None, squareInitial\<lparr>displayPath := Some squareArtwork\<rparr>)"
  unfolding arrangePath_def square_sides
  by (simp add: Let_def squareInitial_fields pathTransformPoint_def
      sandwichPathProjection_def demo_defs)

lemma square_contents:
  "arrangeContents polylineEngine squareInitial = (None, squareInitial\<lparr>displayPath := Some squareArtwork\<rparr>)"
proof -
  have "updateMidpiontMarkers squareInitial = squareInitial"
    unfolding squareInitial_def by (rule updateMidpiontMarkers_twice)
  then show ?thesis by (simp add: arrangeContents_def square_arranged)
qed

lemma construct_square: "construct polylineEngine squareArtwork = Inr squareStart"
  using square_contents
  by (simp add: construct_def squareStart_def squareInitial_def)

lemma squareStart_constructed: "constructed polylineEngine squareArtwork = squareStart"
  by (simp add: constructed_def squareStart_def squareInitial_def)

lemma squareStart_fields:
  "corners squareStart = [0, 1, 2, 3]"
  "outline squareStart = [0, 1, 2, 3]"
  "sourcePath squareStart = squareArtwork"
  "displayPath squareStart = Some squareArtwork"
  "segmentHandles squareStart = [0, 1, 2, 3]"
  "segPoint squareStart = segPoint squareInitial"
  by (simp_all add: squareStart_def square_contents squareInitial_fields)

lemma corrupted_sides:
  "getOutlineSides polylineEngine corruptedFrame = Inl FailedToGetSides"
  by (simp add: getOutlineSides_def getOutlineSidesOf_def Let_def corruptedFrame_def
      squareStart_fields squareInitial_fields elemAt_def polylineEngine_def closeWithin_def)

lemma flatInitial_fields:
  "corners flatInitial = [0, 1, 2, 3]"
  "outline flatInitial = [0, 1, 2, 3]"
  "sourcePath flatInitial = flatArtwork"
  "segPoint flatInitial 0 = Point 0 5"
  "segPoint flatInitial 1 = Point 10 5"
  "segPoint flatInitial (Suc 0) = Point 10 5"
  "segPoint flatInitial 2 = Point 10 5"
  "segPoint flatInitial 3 = Point 0 5"
  by (simp_all add: flatInitial_def updateMidpiontMarkers_def createSegmentMarkers_def
      createOutline_def Let_def upt4 flatArtwork_def demo_defs)

lemma flat_sides:
  "getOutlineSides polylineEngine flatInitial = Inr [[0, 1], [1, 2], [2, 3], [3, 0]]"
  by (simp add: getOutlineSides_def getOutlineSidesOf_def Let_def flatInitial_fields elemAt_def
      polylineEngine_def closeWithin_def)

lemma flat_arranged: "fst (arrangePath polylineEngine flatInitial) = None"
  unfolding arrangePath_def flat_sides
  by (simp add: Let_def flatInitial_fields pathTransformPoint_def sandwichPathProjection_def
      flatArtwork_def demo_defs)

lemma construct_flat: "construct polylineEngine flatArtwork = Inr (constructed polylineEngine flatArtwork)"
proof -
  have "updateMidpiontMarkers flatInitial = flatInitial"
    unfolding flatInitial_def by (rule updateMidpiontMarkers_twice)
  with flat_arranged have "fst (arrangeContents polylineEngine flatInitial) = None"
    by (simp add: arrangeContents_def)
  then show ?thesis
    by (cases "arrangeContents polylineEngine flatInitial")
       (auto simp: construct_def constructed_def flatInitial_def)
qed

section \<open>The sandwich projection\<close>

text \<open>
  Claim C1. For \<open>u\<close> and \<open>v\<close> in \<open>[0, 1]\<close> the projection built from a top and a
  bottom curve maps \<open>(u, v)\<close> to the linear interpolation with parameter \<open>v\<close> between
  the point at arc length \<open>u \<times> topLength\<close> of the top curve and the point at arc length
  \<open>u \<times> bottomLength\<close> of the bottom curve; \<open>(u, 0)\<close> is mapped to that point of the
  top curve and \<open>(u, 1)\<close> to that point of the bottom curve, both sampled within the
  curve's length.
\<close>

theorem sandwich_projection_interpolates:
  assumes u: "0 \<le> u" "u \<le> 1" and v: "0 \<le> v" "v \<le> 1"
    and len: "0 \<le> curveLength topPath" "0 \<le> curveLength bottomPath"
    and tp: "getPointAt topPath (u * curveLength topPath) = Some tp"
    and bp: "getPointAt bottomPath (u * curveLength bottomPath) = Some bp"
  shows "sandwichPathProjection topPath bottomPath (Point u v) = Inr (lerp tp bp v)
       \<and> sandwichPathProjection topPath bottomPath (Point u 0) = Inr tp
       \<and> sandwichPathProjection topPath bottomPath (Point u 1) = Inr bp
       \<and> sampledWithin topPath (u * curveLength topPath) tp
       \<and> sampledWithin bottomPath (u * curveLength bottomPath) bp"
proof -
  have l0: "lerp tp bp 0 = tp" by (cases tp) (simp add: lerp_def add_def multiply_def subtract_def)
  have l1: "lerp tp bp 1 = bp"
    by (cases tp; cases bp) (simp add: lerp_def add_def multiply_def subtract_def)
  have t: "u * curveLength topPath \<le> curveLength topPath"
    using u len by (simp add: mult_left_le_one_le)
  have b: "u * curveLength bottomPath \<le> curveLength bottomPath"
    using u len by (simp add: mult_left_le_one_le)
  show ?thesis
    using tp bp u len t b l0 l1 by (simp add: sandwichPathProjection_def sampledWithin_def)
qed

theorem sandwich_projection_interpolates_witness:
  "sandwichPathProjection horizontalLine (polylineCurve [Point 0 10, Point 10 10]) (Point (1 / 2) (1 / 4))
      = Inr (lerp (Point 5 0) (Point 5 10) (1 / 4))
   \<and> sandwichPathProjection horizontalLine (polylineCurve [Point 0 10, Point 10 10]) (Point (1 / 2) 0)
      = Inr (Point 5 0)
   \<and> sandwichPathProjection horizontalLine (polylineCurve [Point 0 10, Point 10 10]) (Point (1 / 2) 1)
      = Inr (Point 5 10)
   \<and> sampledWithin horizontalLine (1 / 2 * curveLength horizontalLine) (Point 5 0)
   \<and> sampledWithin (polylineCurve [Point 0 10, Point 10 10])
        (1 / 2 * curveLength (polylineCurve [Point 0 10, Point 10 10])) (Point 5 10)"
proof -
  have tp: "getPointAt horizontalLine (1 / 2 * curveLength horizontalLine) = Some (Point 5 0)"
    by (simp add: horizontalLine_def demo_defs)
  have bp: "getPointAt (polylineCurve [Point 0 10, Point 10 10])
              (1 / 2 * curveLength (polylineCurve [Point 0 10, Point 10 10])) = Some (Point 5 10)"
    by (simp add: demo_defs)
  have l1: "0 \<le> curveLength horizontalLine" by (simp add: horizontalLine_def demo_defs)
  have l2: "0 \<le> curveLength (polylineCurve [Point 0 10, Point 10 10])" by (simp add: demo_defs)
  show ?thesis
    using sandwich_projection_interpolates[of "1 / 2" "1 / 4" horizontalLine
        "polylineCurve [Point 0 10, Point 10 10]" "Point 5 0" "Point 5 10", OF _ _ _ _ l1 l2 tp bp]
    by simp
qed

section \<open>The decomposition of the outline\<close>

text \<open>
  Claim C2, as the code has it. For a frame whose corners are \<open>c0, c1, c2, c3\<close> and
  whose outline runs \<open>c0, m0, c1, m1, c2, m2, c3, m3\<close>, where the point of every corner
  is close to itself and no segment walked before a corner is close to that corner's
  point, \<open>getOutlineSides\<close> returns exactly four sides: from \<open>c0\<close> to \<open>c1\<close>, from
  \<open>c1\<close> to \<open>c2\<close>, from \<open>c2\<close> to \<open>c3\<close> and from \<open>c3\<close> back to \<open>c0\<close>.
  Adjacent sides share their corner segment, and glued at the shared segments the sides
  give the outline's segments followed by the first segment again.
\<close>

theorem getOutlineSides_valid_frame:
  assumes cs: "corners this = [c0, c1, c2, c3]"
    and ol: "outline this = c0 # m0 @ c1 # m1 @ c2 # m2 @ c3 # m3"
    and r1: "pointIsClose E (segPoint this c1) (segPoint this c1)"
    and r2: "pointIsClose E (segPoint this c2) (segPoint this c2)"
    and r3: "pointIsClose E (segPoint this c3) (segPoint this c3)"
    and r0: "pointIsClose E (segPoint this c0) (segPoint this c0)"
    and n1: "\<forall>m \<in> set (c0 # m0). \<not> pointIsClose E (segPoint this c1) (segPoint this m)"
    and n2: "\<forall>m \<in> set m1. \<not> pointIsClose E (segPoint this c2) (segPoint this m)"
    and n3: "\<forall>m \<in> set m2. \<not> pointIsClose E (segPoint this c3) (segPoint this m)"
    and n0: "\<forall>m \<in> set m3. \<not> pointIsClose E (segPoint this c0) (segPoint this m)"
  shows "getOutlineSides E this =
           Inr [c0 # m0 @ [c1], c1 # m1 @ [c2], c2 # m2 @ [c3], c3 # m3 @ [c0]]
       \<and> joinSides [c0 # m0 @ [c1], c1 # m1 @ [c2], c2 # m2 @ [c3], c3 # m3 @ [c0]]
           = outline this @ [c0]"
proof -
  have "getOutlineSides E this =
           Inr [c0 # m0 @ [c1], c1 # m1 @ [c2], c2 # m2 @ [c3], c3 # m3 @ [c0]]"
    unfolding getOutlineSides_def cs ol
    by (rule getOutlineSidesOf_valid[OF r1 r2 r3 r0 n1 n2 n3 n0])
  then show ?thesis by (simp add: ol)
qed

theorem getOutlineSides_valid_frame_witness:
  "getOutlineSides polylineEngine squareInitial = Inr [0 # [] @ [1], 1 # [] @ [2], 2 # [] @ [3], 3 # [] @ [0]]
   \<and> joinSides [0 # [] @ [1], 1 # [] @ [2], 2 # [] @ [3], 3 # [] @ [0]] = outline squareInitial @ [0]"
proof -
  have ol: "outline squareInitial = 0 # [] @ 1 # [] @ 2 # [] @ 3 # []"
    by (simp add: squareInitial_fields)
  show ?thesis
    by (rule getOutlineSides_valid_frame[of squareInitial 0 1 2 3 "[]" "[]" "[]" "[]" polylineEngine,
          OF _ ol])
       (simp_all add: squareInitial_fields polylineEngine_def closeWithin_def)
qed

theorem sides_concatenation_counterexample:
  "getOutlineSides polylineEngine squareInitial = Inr [[0, 1], [1, 2], [2, 3], [3, 0]]
   \<and> concat [[0, 1], [1, 2], [2, 3], [3, 0::nat]] \<noteq> outline squareInitial"
  by (simp add: square_sides squareInitial_fields)

text \<open>
  Claim C3 at a frame whose four corners coincide (the outline of an artwork with no
  width and no height): the fourth side is closed before the walk reaches the repeated
  first segment, the queue of target corners is empty, and the next test of the walk
  dereferences \<open>undefined\<close>. The call ends in a \<open>TypeError\<close>: it neither returns four
  sides nor throws the failure of the side count.
\<close>

theorem getOutlineSides_collapsed_frame:
  "getOutlineSides polylineEngine (createOutline polylineEngine dotArtwork) = Inl TypeError"
  by (simp add: getOutlineSides_def getOutlineSidesOf_def createOutline_def Let_def upt4
      dotArtwork_def elemAt_def demo_defs)

text \<open>
  Claim C9. Whenever \<open>getOutlineSides\<close> returns, every side is closed at a segment
  whose point is close to the corner then targeted (the corners in the order
  \<open>corners[1], corners[2], corners[3], corners[0]\<close>), and the next side begins with
  that same segment.
\<close>

theorem sides_share_corner_segment:
  assumes ok: "getOutlineSides E this = Inr sides" and i: "Suc i < length sides"
  shows "sides ! i \<noteq> [] \<and> hd (sides ! Suc i) = last (sides ! i)
       \<and> pointIsClose E (segPoint this (rotate1 (corners this) ! i)) (segPoint this (last (sides ! i)))"
proof -
  from ok have g: "getOutlineSidesOf (pointIsClose E) (segPoint this) (corners this) (outline this) = Inr sides"
    by (simp add: getOutlineSides_def)
  from getOutlineSidesOf_chained[OF g] i
  have "sides ! i \<noteq> [] \<and> sides ! Suc i \<noteq> [] \<and> hd (sides ! Suc i) = last (sides ! i)"
    by (rule chained_nth)
  moreover from i have "i < length sides" by simp
  from getOutlineSidesOf_matched[OF g this]
  have "pointIsClose E (segPoint this (rotate1 (corners this) ! i)) (segPoint this (last (sides ! i)))"
    by simp
  ultimately show ?thesis by simp
qed

theorem sides_share_corner_segment_witness:
  "[[0, 1], [1, 2], [2, 3], [3, 0::nat]] ! 1 \<noteq> []
   \<and> hd ([[0, 1], [1, 2], [2, 3], [3, 0::nat]] ! Suc 1) = last ([[0, 1], [1, 2], [2, 3], [3, 0]] ! 1)
   \<and> pointIsClose polylineEngine (segPoint squareInitial (rotate1 (corners squareInitial) ! 1))
       (segPoint squareInitial (last ([[0, 1], [1, 2], [2, 3], [3, 0]] ! 1)))"
  by (rule sides_share_corner_segment[OF square_sides]) simp

section \<open>A failed arrangement keeps the display artwork\<close>

text \<open>
  Claim C4. If the decomposition fails, the arrangement pass ends with that exception
  and \<open>displayPath\<close> is what it was before the pass; the source artwork, the outline,
  the corners and the points of the segments are untouched as well.
\<close>

theorem failed_decomposition_keeps_displayPath:
  assumes "getOutlineSides E this = Inl e"
  shows "fst (arrangeContents E this) = Some e
       \<and> displayPath (snd (arrangeContents E this)) = displayPath this
       \<and> sourcePath (snd (arrangeContents E this)) = sourcePath this
       \<and> outline (snd (arrangeContents E this)) = outline this
       \<and> corners (snd (arrangeContents E this)) = corners this
       \<and> segPoint (snd (arrangeContents E this)) = segPoint this"
proof -
  have "getOutlineSides E (updateMidpiontMarkers this) = getOutlineSides E this"
    by (simp add: getOutlineSides_def updateMidpiontMarkers_def)
  with assms have "arrangePath E (updateMidpiontMarkers this) = (Some e, updateMidpiontMarkers this)"
    by (simp add: arrangePath_def Let_def)
  then show ?thesis
    by (simp add: arrangeContents_def updateMidpiontMarkers_def)
qed

theorem failed_decomposition_keeps_displayPath_witness:
  "fst (arrangeContents polylineEngine corruptedFrame) = Some FailedToGetSides
   \<and> displayPath (snd (arrangeContents polylineEngine corruptedFrame)) = displayPath corruptedFrame
   \<and> sourcePath (snd (arrangeContents polylineEngine corruptedFrame)) = sourcePath corruptedFrame
   \<and> outline (snd (arrangeContents polylineEngine corruptedFrame)) = outline corruptedFrame
   \<and> corners (snd (arrangeContents polylineEngine corruptedFrame)) = corners corruptedFrame
   \<and> segPoint (snd (arrangeContents polylineEngine corruptedFrame)) = segPoint corruptedFrame
   \<and> displayPath corruptedFrame = Some squareArtwork"
  using failed_decomposition_keeps_displayPath[OF corrupted_sides]
  by (simp add: corruptedFrame_def squareStart_fields)

section \<open>Path sections\<close>

text \<open>
  Claim C5, as the code has it. \<open>getPointAt\<close> of a path section returns what the
  underlying path returns at the queried distance plus the section's offset. The
  section's length is not consulted and nothing is clamped: where the path has no point
  at that arc length the result is \<open>null\<close>.
\<close>

theorem PathSection_getPointAt_delegates:
  "PathSection_getPointAt (PathSection p off len) d = getPointAt p (d + off)"
  by (simp add: PathSection_getPointAt_def)

theorem PathSection_getPointAt_delegates_witness:
  "PathSection_getPointAt (PathSection horizontalLine 2 3) 5 = getPointAt horizontalLine (5 + 2)
   \<and> getPointAt horizontalLine (5 + 2) = Some (Point 7 0)"
  using PathSection_getPointAt_delegates[of horizontalLine 2 3 5]
  by (simp add: horizontalLine_def demo_defs)

theorem PathSection_not_clamped_counterexample:
  "curveLength horizontalLine = 10
   \<and> PathSection_getPointAt (PathSection horizontalLine 5 5) 6 = None"
  by (simp add: PathSection_getPointAt_def horizontalLine_def demo_defs)

section \<open>Arranging twice\<close>

text \<open>
  Claim C6. A second \<open>arrangeContents\<close> with no edit in between leaves the same
  \<open>displayPath\<close> as the first.
\<close>

theorem arrangeContents_idempotent:
  "displayPath (snd (arrangeContents E (snd (arrangeContents E this))))
     = displayPath (snd (arrangeContents E this))"
proof -
  let ?u = "updateMidpiontMarkers this"
  let ?s1 = "snd (arrangePath E ?u)"
  let ?u1 = "updateMidpiontMarkers ?s1"
  have c: "corners ?u1 = corners ?u" "outline ?u1 = outline ?u" "segPoint ?u1 = segPoint ?u"
    "sourcePath ?u1 = sourcePath ?u"
    by (simp_all add: updateMidpiontMarkers_def arrangePath_frame)
  have d: "displayPath ?u1 = displayPath ?s1" by (simp add: updateMidpiontMarkers_def)
  show ?thesis
  proof (cases "fst (arrangePath E ?u)")
    case None
    from arrangePath_cong(2)[OF c None] show ?thesis by (simp add: arrangeContents_def)
  next
    case (Some e)
    then have "fst (arrangePath E ?u) \<noteq> None" by simp
    from arrangePath_cong(3)[OF c this] d show ?thesis by (simp add: arrangeContents_def)
  qed
qed

theorem arrangeContents_idempotent_witness:
  "displayPath (snd (arrangeContents polylineEngine (snd (arrangeContents polylineEngine squareInitial))))
     = displayPath (snd (arrangeContents polylineEngine squareInitial))
   \<and> displayPath (snd (arrangeContents polylineEngine squareInitial)) = Some squareArtwork"
  using arrangeContents_idempotent[of polylineEngine squareInitial]
  by (simp add: square_contents)

section \<open>The corners under edits\<close>

text \<open>
  Claim C7. In the state the constructor leaves, and after whatever segments are dragged
  and whatever midpoints are inserted from there, \<open>corners\<close> is the list the outline
  was created with: four distinct segments, all of them still segments of the outline.
  Only the outline's other segments change in number. Every object the constructor
  returns is such a state (\<open>construct_constructed\<close>).
\<close>

theorem corners_never_change:
  "corners (applyEdits E edits (constructed E source)) = corners (constructed E source)
   \<and> length (corners (applyEdits E edits (constructed E source))) = 4
   \<and> distinct (corners (applyEdits E edits (constructed E source)))
   \<and> set (corners (applyEdits E edits (constructed E source)))
      \<subseteq> set (outline (applyEdits E edits (constructed E source)))"
proof -
  have s: "framed (constructed E source)" by (rule framed_constructed)
  then have f: "framed (applyEdits E edits (constructed E source))" by (rule framed_applyEdits)
  from f obtain tops bots where
    "outline (applyEdits E edits (constructed E source)) = 0 # tops @ [1, 2] @ bots @ [3]"
    by (auto simp: framed_def)
  with s f show ?thesis by (simp add: framed_def)
qed

theorem corners_never_change_witness:
  "construct polylineEngine flatArtwork = Inr (constructed polylineEngine flatArtwork)
   \<and> corners (applyEdits polylineEngine [CornerMoved 2 (Point 20 10), MidpointInserted 0 (Point 5 0)]
        (constructed polylineEngine flatArtwork))
     = corners (constructed polylineEngine flatArtwork)
   \<and> length (corners (applyEdits polylineEngine
        [CornerMoved 2 (Point 20 10), MidpointInserted 0 (Point 5 0)]
        (constructed polylineEngine flatArtwork))) = 4
   \<and> distinct (corners (applyEdits polylineEngine
        [CornerMoved 2 (Point 20 10), MidpointInserted 0 (Point 5 0)]
        (constructed polylineEngine flatArtwork)))
   \<and> set (corners (applyEdits polylineEngine
        [CornerMoved 2 (Point 20 10), MidpointInserted 0 (Point 5 0)]
        (constructed polylineEngine flatArtwork)))
      \<subseteq> set (outline (applyEdits polylineEngine
        [CornerMoved 2 (Point 20 10), MidpointInserted 0 (Point 5 0)]
        (constructed polylineEngine flatArtwork)))"
  using construct_flat
    corners_never_change[of polylineEngine
      "[CornerMoved 2 (Point 20 10), MidpointInserted 0 (Point 5 0)]" flatArtwork]
  by blast

section \<open>Edits are not validated\<close>

text \<open>
  Claim C8, as the code has it. The callbacks of the handles check nothing: the drag of a
  segment that has a handle always changes the segment's point and runs an arrangement
  on the changed outline, and a split at an existing splitter handle always inserts the
  new segment into the outline and runs an arrangement. Neither looks at how many
  distinct corner points the outline has.
\<close>

theorem edits_always_applied:
  assumes "r \<in> set (segmentHandles this)" and "elemAt (midpointGroup this) k = Some handle"
  shows "cornerMoved E r p this = arrangeContents E (moveSegment r p this)
       \<and> segPoint (snd (cornerMoved E r p this)) = (segPoint this)(r := p)
       \<and> outline (snd (midpointInserted E k q this))
           = insertAfter (fst handle) (freshRef this) (outline this)
       \<and> segPoint (snd (midpointInserted E k q this)) = (segPoint this)(freshRef this := q)"
  using assms
  by (simp add: cornerMoved_def onChangeComplete_def midpointInserted_def onDragEnd_def
      arrangeContents_frame moveSegment_def divideCurve_def)

lemma squareStart_midpointGroup: "midpointGroup squareStart = [(0, 1), (2, 3)]"
  by (simp add: squareStart_def arrangeContents_midpointGroup squareInitial_fields curvesOf_def
      elemAt_def)

theorem edits_always_applied_witness:
  "cornerMoved polylineEngine 2 (Point 0 10) squareStart
     = arrangeContents polylineEngine (moveSegment 2 (Point 0 10) squareStart)
   \<and> segPoint (snd (cornerMoved polylineEngine 2 (Point 0 10) squareStart))
       = (segPoint squareStart)(2 := Point 0 10)
   \<and> outline (snd (midpointInserted polylineEngine 0 (Point 5 0) squareStart))
       = insertAfter (fst (0, 1::nat)) (freshRef squareStart) (outline squareStart)
   \<and> segPoint (snd (midpointInserted polylineEngine 0 (Point 5 0) squareStart))
       = (segPoint squareStart)(freshRef squareStart := Point 5 0)"
proof -
  have h: "2 \<in> set (segmentHandles squareStart)" by (simp add: squareStart_fields)
  have k: "elemAt (midpointGroup squareStart) 0 = Some (0, 1)"
    by (simp add: squareStart_midpointGroup elemAt_def)
  show ?thesis by (rule edits_always_applied[OF h k])
qed

theorem edit_not_refused_counterexample:
  "map (segPoint squareStart) (corners squareStart)
     = [Point 0 0, Point 10 0, Point 10 10, Point 0 10]
   \<and> map (segPoint (snd (cornerMoved polylineEngine 2 (Point 0 10) squareStart)))
       (corners (snd (cornerMoved polylineEngine 2 (Point 0 10) squareStart)))
     = [Point 0 0, Point 10 0, Point 0 10, Point 0 10]
   \<and> fst (cornerMoved polylineEngine 2 (Point 0 10) squareStart) = None
   \<and> displayPath (snd (cornerMoved polylineEngine 2 (Point 0 10) squareStart))
     = Some [[Point 0 0, Point 10 0, Point 0 10, Point 0 10]]"
proof -
  let ?u = "updateMidpiontMarkers (moveSegment 2 (Point 0 10) squareStart)"
  have c: "cornerMoved polylineEngine 2 (Point 0 10) squareStart = arrangePath polylineEngine ?u"
    by (simp add: cornerMoved_def onChangeComplete_def arrangeContents_def squareStart_fields)
  have f: "corners ?u = [0, 1, 2, 3]" "outline ?u = [0, 1, 2, 3]" "sourcePath ?u = squareArtwork"
    "segPoint ?u 0 = Point 0 0" "segPoint ?u (Suc 0) = Point 10 0" "segPoint ?u 1 = Point 10 0"
    "segPoint ?u 2 = Point 0 10" "segPoint ?u 3 = Point 0 10"
    by (simp_all add: updateMidpiontMarkers_def moveSegment_def squareStart_fields squareInitial_fields)
  have s: "getOutlineSides polylineEngine ?u = Inr [[0, 1], [1, 2], [2, 3], [3, 0]]"
    by (simp add: getOutlineSides_def getOutlineSidesOf_def Let_def f elemAt_def
        polylineEngine_def closeWithin_def)
  have a: "arrangePath polylineEngine ?u
      = (None, ?u\<lparr>displayPath := Some [[Point 0 0, Point 10 0, Point 0 10, Point 0 10]]\<rparr>)"
    unfolding arrangePath_def s
    by (simp add: Let_def f pathTransformPoint_def sandwichPathProjection_def demo_defs)
  show ?thesis
    unfolding c a using f by (simp add: squareStart_fields squareInitial_fields)
qed

section \<open>Where midpoints can be inserted\<close>

text \<open>
  Claim C10. Every arrangement rebuilds the splitter handles: one for each curve of the
  outline but those whose first segment is \<open>corners[1]\<close> or \<open>corners[3]\<close>. In every
  state reached from the state the constructor leaves (so from every object it returns,
  \<open>construct_constructed\<close>) by drags and midpoint insertions the right side
  (from \<open>corners[1]\<close> to \<open>corners[2]\<close>) and the left side (from \<open>corners[3]\<close> to
  \<open>corners[0]\<close>) are single curves with no handle, and the handles are exactly the
  curves of the top side followed by the curves of the bottom side.
\<close>

theorem midpoint_handles_only_on_top_and_bottom:
  fixes E :: "'a engine" and edits :: "edit list" and source :: 'a
  defines "this \<equiv> applyEdits E edits (constructed E source)"
  shows "midpointGroup (snd (arrangeContents E other)) =
           filter (\<lambda>curve. \<not> (Some (fst curve) = elemAt (corners other) 1
                              \<or> Some (fst curve) = elemAt (corners other) 3))
             (curvesOf (outline other))
       \<and> midpointGroup this =
           sideCurves (outline this) (corners this ! 0) (corners this ! 1) @
           sideCurves (outline this) (corners this ! 2) (corners this ! 3)
       \<and> sideCurves (outline this) (corners this ! 1) (corners this ! 2) = [(corners this ! 1, corners this ! 2)]
       \<and> sideCurves (outline this) (corners this ! 3) (corners this ! 0) = [(corners this ! 3, corners this ! 0)]
       \<and> (corners this ! 1, corners this ! 2) \<notin> set (midpointGroup this)
       \<and> (corners this ! 3, corners this ! 0) \<notin> set (midpointGroup this)"
proof -
  have f: "framed this" unfolding this_def by (intro framed_applyEdits framed_constructed)
  then have cs: "corners this = [0, 1, 2, 3]" and d: "distinct (outline this)" by (simp_all add: framed_def)
  from f obtain tops bots where
    o: "outline this = 0 # tops @ [1, 2] @ bots @ [3]" and
    s: "sideOf (outline this) 0 1 = 0 # tops @ [1]"
    "sideOf (outline this) 1 2 = [1, 2]"
    "sideOf (outline this) 2 3 = 2 # bots @ [3]"
    "sideOf (outline this) 3 0 = [3, 0]" and
    m: "midpointGroup this = zip (0 # tops @ [1]) (tops @ [1]) @ zip (2 # bots @ [3]) (bots @ [3])"
    by (rule framed_sides)
  have mf: "midpointGroup this =
       filter (\<lambda>curve. \<not> (Some (fst curve) = elemAt (corners this) 1 \<or> Some (fst curve) = elemAt (corners this) 3))
         (curvesOf (outline this))"
    using f by (simp add: framed_def)
  have n1: "(1, 2) \<notin> set (midpointGroup this)"
    by (subst mf) (simp add: cs elemAt_def)
  have n3: "(3, 0) \<notin> set (midpointGroup this)"
    by (subst mf) (simp add: cs elemAt_def)
  show ?thesis
    using s m n1 n3 by (simp add: arrangeContents_midpointGroup cs sideCurves_def)
qed

theorem midpoint_handles_only_on_top_and_bottom_witness:
  "midpointGroup editedSquare =
     sideCurves (outline editedSquare) (corners editedSquare ! 0) (corners editedSquare ! 1) @
     sideCurves (outline editedSquare) (corners editedSquare ! 2) (corners editedSquare ! 3)
   \<and> (corners editedSquare ! 1, corners editedSquare ! 2) \<notin> set (midpointGroup editedSquare)
   \<and> (corners editedSquare ! 3, corners editedSquare ! 0) \<notin> set (midpointGroup editedSquare)
   \<and> outline editedSquare = [0, 4, 1, 2, 3]
   \<and> midpointGroup editedSquare = [(0, 4), (4, 1), (2, 3)]"
proof -
  have fr: "freshRef squareStart = 4" by (simp add: freshRef_def squareStart_fields)
  have o: "outline editedSquare = [0, 4, 1, 2, 3]"
    by (simp add: editedSquare_def midpointInserted_def onDragEnd_def arrangeContents_frame
        divideCurve_def squareStart_midpointGroup elemAt_def squareStart_fields fr)
  have m: "midpointGroup editedSquare = [(0, 4), (4, 1), (2, 3)]"
    by (simp add: editedSquare_def midpointInserted_def onDragEnd_def arrangeContents_midpointGroup
        divideCurve_def squareStart_midpointGroup elemAt_def squareStart_fields fr curvesOf_def)
  from midpoint_handles_only_on_top_and_bottom[where E=polylineEngine and source=squareArtwork
      and edits="[MidpointInserted 0 (Point 5 0)]" and other=squareStart,
      unfolded squareStart_constructed, folded editedSquare_def]
  show ?thesis using o m by blast
qed

end
